theory Spec2Isabelle
  imports Complex_Main
begin

section \<open>Data model\<close>

text \<open>
  A cell is a pair (row, column) of Python integers. A piece is a Python object: it has an
  identity (its reference) and three attributes, its class, its colour and its current
  cell, which is \<open>None\<close> until the piece is placed.
\<close>

type_synonym cell = "int \<times> int"

type_synonym ref = nat

datatype kind = Pawn | Knight | Bishop | Rook | Queen | King

record piece =
  kind :: kind
  white :: bool
  cell :: "cell option"

text \<open>
  The mutable state: the board's cell storage, each cell holding a reference to a piece or
  \<open>None\<close>, and the piece objects, found by their reference.
\<close>

record world =
  cells :: "cell \<Rightarrow> ref option"
  objs :: "ref \<Rightarrow> piece"

text \<open>
  The exceptions of the model: \<open>TypeError\<close> is what \<^verbatim>\<open>r, c = self.cell\<close> raises on
  \<open>None\<close>, \<open>UnboundLocalError\<close> is what reading an unassigned local raises, and
  \<open>BoardQueryFailure\<close> stands for any exception raised inside the board.
  \<open>UnplacedPiece\<close> is the dedicated error that section 7 of the spec names for a piece
  without a cell. \<^verbatim>\<open>pieces.py\<close> has no \<^verbatim>\<open>raise\<close> statement and no test of
  \<^verbatim>\<open>self.cell\<close> against \<open>None\<close>, so no definition below produces it; it is in the
  type so that statements can tell it from the error that is raised.
\<close>

datatype error = TypeError | UnboundLocalError | BoardQueryFailure | UnplacedPiece

section \<open>The board collaborator\<close>

text \<open>
  The class of the board is not part of \<^verbatim>\<open>pieces.py\<close>. Its four queries are parameters
  of the model: each reads the state and returns a truth value or raises.
\<close>

record board_ops =
  cell_is_valid_and_empty :: "world \<Rightarrow> cell \<Rightarrow> error + bool"
  piece_can_enter_cell :: "world \<Rightarrow> ref \<Rightarrow> cell \<Rightarrow> error + bool"
  piece_can_hit_on_cell :: "world \<Rightarrow> ref \<Rightarrow> cell \<Rightarrow> error + bool"
  is_king_check_cached :: "world \<Rightarrow> bool \<Rightarrow> error + bool"

text \<open>
  Modelled from the spec: \<^verbatim>\<open>Board.get_cell\<close>, whose source is not in \<^verbatim>\<open>pieces.py\<close>;
  section 6 gives \<^verbatim>\<open>get_cell(cell) -> occupant_or_none\<close>.
\<close>

definition get_cell :: "world \<Rightarrow> cell \<Rightarrow> ref option" where
  "get_cell w c = cells w c"

text \<open>
  Modelled from the spec: \<^verbatim>\<open>Board.set_cell\<close>, whose source is not in \<^verbatim>\<open>pieces.py\<close>;
  section 6 gives \<^verbatim>\<open>set_cell(cell, occupant_or_none)\<close>, the "relocation/restoration
  primitive", and section 3 says that a piece is mutated "only by relocation (cell
  reassignment) during real moves or during the legality filter's temporary
  simulate/restore cycle". So the operation stores the occupant in the cell and, when the
  occupant is a piece, reassigns that piece's current cell. (Nothing in \<^verbatim>\<open>pieces.py\<close>
  assigns \<^verbatim>\<open>self.cell\<close> after the constructor has set it to \<open>None\<close>.)
\<close>

definition set_cell :: "world \<Rightarrow> cell \<Rightarrow> ref option \<Rightarrow> world" where
  "set_cell w c occ =
     (case occ of
        None \<Rightarrow> w\<lparr>cells := (cells w)(c := None)\<rparr>
      | Some p \<Rightarrow> w\<lparr>cells := (cells w)(c := Some p),
                     objs := (objs w)(p := (objs w p)\<lparr>cell := Some c\<rparr>)\<rparr>)"

section \<open>The base class\<close>

definition is_white :: "world \<Rightarrow> ref \<Rightarrow> bool" where
  "is_white w self = white (objs w self)"

definition can_enter_cell :: "board_ops \<Rightarrow> world \<Rightarrow> ref \<Rightarrow> cell \<Rightarrow> error + bool" where
  "can_enter_cell ops w self c = piece_can_enter_cell ops w self c"

definition can_hit_on_cell :: "board_ops \<Rightarrow> world \<Rightarrow> ref \<Rightarrow> cell \<Rightarrow> error + bool" where
  "can_hit_on_cell ops w self c = piece_can_hit_on_cell ops w self c"

section \<open>Movement generator\<close>

subsection \<open>Pawn\<close>

definition direction :: "bool \<Rightarrow> int" where
  "direction wh = (if wh then 1 else - 1)"

definition start_row :: "bool \<Rightarrow> int" where
  "start_row wh = (if wh then 1 else 6)"

text \<open>The two forward steps: the second query is made only after the first succeeded.\<close>

definition pawn_forward :: "board_ops \<Rightarrow> world \<Rightarrow> ref \<Rightarrow> int \<Rightarrow> int \<Rightarrow> error + cell list" where
  "pawn_forward ops w self r c =
     (let d = direction (is_white w self);
          one_step = (r + d, c);
          two_step = (r + 2 * d, c)
      in case cell_is_valid_and_empty ops w one_step of
           Inl e \<Rightarrow> Inl e
         | Inr False \<Rightarrow> Inr []
         | Inr True \<Rightarrow>
             (if r = start_row (is_white w self)
              then (case cell_is_valid_and_empty ops w two_step of
                      Inl e \<Rightarrow> Inl e
                    | Inr b \<Rightarrow> Inr (if b then [one_step, two_step] else [one_step]))
              else Inr [one_step]))"

text \<open>\<^verbatim>\<open>if self.can_hit_on_cell(cell): reachable.append(cell)\<close>\<close>

definition append_if_hit ::
  "board_ops \<Rightarrow> world \<Rightarrow> ref \<Rightarrow> cell \<Rightarrow> cell list \<Rightarrow> error + cell list" where
  "append_if_hit ops w self c reachable =
     (case can_hit_on_cell ops w self c of
        Inl e \<Rightarrow> Inl e
      | Inr b \<Rightarrow> Inr (if b then reachable @ [c] else reachable))"

definition pawn_get_reachable_cells :: "board_ops \<Rightarrow> world \<Rightarrow> ref \<Rightarrow> error + cell list" where
  "pawn_get_reachable_cells ops w self =
     (case cell (objs w self) of
        None \<Rightarrow> Inl TypeError
      | Some (r, c) \<Rightarrow>
          (let d = direction (is_white w self);
               diag_left = (r + d, c - 1);
               diag_right = (r + d, c + 1)
           in case pawn_forward ops w self r c of
                Inl e \<Rightarrow> Inl e
              | Inr reachable \<Rightarrow>
                  (case append_if_hit ops w self diag_left reachable of
                     Inl e \<Rightarrow> Inl e
                   | Inr reachable' \<Rightarrow> append_if_hit ops w self diag_right reachable')))"

subsection \<open>Rook, Bishop, Queen\<close>

text \<open>
  The \<^verbatim>\<open>while True\<close> loop of one ray. It has no bound of its own: it ends when the board
  answers that a cell is not valid and empty. Not returning is the value \<open>None\<close>.
\<close>

partial_function (option) ray_loop ::
  "board_ops \<Rightarrow> world \<Rightarrow> ref \<Rightarrow> int \<Rightarrow> int \<Rightarrow> int \<Rightarrow> int \<Rightarrow> cell list
     \<Rightarrow> (error + cell list) option" where
  "ray_loop ops w self dr dc nr nc reachable =
     (case cell_is_valid_and_empty ops w (nr, nc) of
        Inl e \<Rightarrow> Some (Inl e)
      | Inr b \<Rightarrow>
          (if b then ray_loop ops w self dr dc (nr + dr) (nc + dc) (reachable @ [(nr, nc)])
           else (case can_hit_on_cell ops w self (nr, nc) of
                   Inl e \<Rightarrow> Some (Inl e)
                 | Inr h \<Rightarrow> Some (Inr (if h then reachable @ [(nr, nc)] else reachable)))))"

text \<open>\<^verbatim>\<open>for dr, dc in directions\<close>: one ray after the other, into the same list.\<close>

fun rays ::
  "board_ops \<Rightarrow> world \<Rightarrow> ref \<Rightarrow> int \<Rightarrow> int \<Rightarrow> (int \<times> int) list \<Rightarrow> cell list
     \<Rightarrow> (error + cell list) option" where
  "rays ops w self r c [] reachable = Some (Inr reachable)"
| "rays ops w self r c ((dr, dc) # ds) reachable =
     (case ray_loop ops w self dr dc (r + dr) (c + dc) reachable of
        None \<Rightarrow> None
      | Some (Inl e) \<Rightarrow> Some (Inl e)
      | Some (Inr reachable') \<Rightarrow> rays ops w self r c ds reachable')"

definition rook_directions :: "(int \<times> int) list" where
  "rook_directions = [(- 1, 0), (1, 0), (0, - 1), (0, 1)]"

definition bishop_directions :: "(int \<times> int) list" where
  "bishop_directions = [(- 1, - 1), (- 1, 1), (1, - 1), (1, 1)]"

definition queen_directions :: "(int \<times> int) list" where
  "queen_directions =
     [(- 1, 0), (1, 0), (0, - 1), (0, 1), (- 1, - 1), (- 1, 1), (1, - 1), (1, 1)]"

definition sliding_get_reachable_cells ::
  "(int \<times> int) list \<Rightarrow> board_ops \<Rightarrow> world \<Rightarrow> ref \<Rightarrow> (error + cell list) option" where
  "sliding_get_reachable_cells directions ops w self =
     (case cell (objs w self) of
        None \<Rightarrow> Some (Inl TypeError)
      | Some (r, c) \<Rightarrow> rays ops w self r c directions [])"

definition rook_get_reachable_cells :: "board_ops \<Rightarrow> world \<Rightarrow> ref \<Rightarrow> (error + cell list) option" where
  "rook_get_reachable_cells = sliding_get_reachable_cells rook_directions"

definition bishop_get_reachable_cells :: "board_ops \<Rightarrow> world \<Rightarrow> ref \<Rightarrow> (error + cell list) option" where
  "bishop_get_reachable_cells = sliding_get_reachable_cells bishop_directions"

definition queen_get_reachable_cells :: "board_ops \<Rightarrow> world \<Rightarrow> ref \<Rightarrow> (error + cell list) option" where
  "queen_get_reachable_cells = sliding_get_reachable_cells queen_directions"

subsection \<open>Knight, King\<close>

text \<open>
  \<^verbatim>\<open>if self.can_enter_cell(cell) or self.can_hit_on_cell(cell)\<close>: the second query is made
  only when the first answered false.
\<close>

definition enter_or_hit :: "board_ops \<Rightarrow> world \<Rightarrow> ref \<Rightarrow> cell \<Rightarrow> error + bool" where
  "enter_or_hit ops w self c =
     (case can_enter_cell ops w self c of
        Inl e \<Rightarrow> Inl e
      | Inr b \<Rightarrow> (if b then Inr True else can_hit_on_cell ops w self c))"

fun steps ::
  "board_ops \<Rightarrow> world \<Rightarrow> ref \<Rightarrow> int \<Rightarrow> int \<Rightarrow> (int \<times> int) list \<Rightarrow> cell list
     \<Rightarrow> error + cell list" where
  "steps ops w self r c [] reachable = Inr reachable"
| "steps ops w self r c ((dr, dc) # ds) reachable =
     (case enter_or_hit ops w self (r + dr, c + dc) of
        Inl e \<Rightarrow> Inl e
      | Inr b \<Rightarrow>
          steps ops w self r c ds (if b then reachable @ [(r + dr, c + dc)] else reachable))"

definition jumps :: "(int \<times> int) list" where
  "jumps = [(2, 1), (2, - 1), (- 2, 1), (- 2, - 1), (1, 2), (1, - 2), (- 1, 2), (- 1, - 2)]"

text \<open>The two nested \<^verbatim>\<open>for\<close> loops of the king, with the \<^verbatim>\<open>continue\<close> at (0, 0).\<close>

definition king_offsets :: "(int \<times> int) list" where
  "king_offsets =
     concat (map (\<lambda>dr. concat (map (\<lambda>dc. if dr = 0 \<and> dc = 0 then [] else [(dr, dc)])
                                  [- 1, 0, 1])) [- 1, 0, 1])"

definition stepping_get_reachable_cells ::
  "(int \<times> int) list \<Rightarrow> board_ops \<Rightarrow> world \<Rightarrow> ref \<Rightarrow> error + cell list" where
  "stepping_get_reachable_cells offsets ops w self =
     (case cell (objs w self) of
        None \<Rightarrow> Inl TypeError
      | Some (r, c) \<Rightarrow> steps ops w self r c offsets [])"

definition knight_get_reachable_cells :: "board_ops \<Rightarrow> world \<Rightarrow> ref \<Rightarrow> error + cell list" where
  "knight_get_reachable_cells = stepping_get_reachable_cells jumps"

definition king_get_reachable_cells :: "board_ops \<Rightarrow> world \<Rightarrow> ref \<Rightarrow> error + cell list" where
  "king_get_reachable_cells = stepping_get_reachable_cells king_offsets"

subsection \<open>Dispatch on the class of the piece\<close>

definition get_reachable_cells :: "board_ops \<Rightarrow> world \<Rightarrow> ref \<Rightarrow> (error + cell list) option" where
  "get_reachable_cells ops w self =
     (case kind (objs w self) of
        Pawn \<Rightarrow> Some (pawn_get_reachable_cells ops w self)
      | Knight \<Rightarrow> Some (knight_get_reachable_cells ops w self)
      | Bishop \<Rightarrow> bishop_get_reachable_cells ops w self
      | Rook \<Rightarrow> rook_get_reachable_cells ops w self
      | Queen \<Rightarrow> queen_get_reachable_cells ops w self
      | King \<Rightarrow> Some (king_get_reachable_cells ops w self))"

section \<open>Legality filter\<close>

text \<open>
  The loop of \<^verbatim>\<open>get_valid_cells\<close>. It returns the state with its result, on the
  error path too: an exception leaves the board as it is at the statement that raised.
  The check predicate is a query: it reads the state it is given. \<open>old_cell\<close> was read
  from \<^verbatim>\<open>self.cell\<close> before the loop; indexing the board with \<open>None\<close> raises.
\<close>

fun filter_loop ::
  "board_ops \<Rightarrow> ref \<Rightarrow> cell option \<Rightarrow> cell list \<Rightarrow> world \<Rightarrow> cell list
     \<Rightarrow> (error + cell list) \<times> world" where
  "filter_loop ops self old_cell [] w valid = (Inr valid, w)"
| "filter_loop ops self old_cell (target # ts) w valid =
     (let captured = get_cell w target;
          w1 = set_cell w target (Some self)
      in case is_king_check_cached ops w1 (is_white w1 self) of
           Inl e \<Rightarrow> (Inl e, w1)
         | Inr in_check \<Rightarrow>
             (case old_cell of
                None \<Rightarrow> (Inl TypeError, w1)
              | Some oc \<Rightarrow>
                  (let w2 = set_cell w1 oc (Some self);
                       w3 = set_cell w2 target captured
                   in filter_loop ops self old_cell ts w3
                        (if \<not> in_check then valid @ [target] else valid))))"

definition get_valid_cells ::
  "board_ops \<Rightarrow> world \<Rightarrow> ref \<Rightarrow> ((error + cell list) \<times> world) option" where
  "get_valid_cells ops w self =
     (case get_reachable_cells ops w self of
        None \<Rightarrow> None
      | Some (Inl e) \<Rightarrow> Some (Inl e, w)
      | Some (Inr reachable) \<Rightarrow>
          Some (filter_loop ops self (cell (objs w self)) reachable w []))"

section \<open>Evaluator\<close>

text \<open>
  Python floats are modelled as real numbers: the rounding of the two products and the
  two sums is not part of the model.
\<close>

definition cls_name :: "kind \<Rightarrow> string" where
  "cls_name k =
     (case k of Pawn \<Rightarrow> ''Pawn'' | Knight \<Rightarrow> ''Knight'' | Bishop \<Rightarrow> ''Bishop''
      | Rook \<Rightarrow> ''Rook'' | Queen \<Rightarrow> ''Queen'' | King \<Rightarrow> ''King'')"

definition base_values :: "string \<rightharpoonup> real" where
  "base_values =
     map_of [(''Pawn'', 1.0), (''Knight'', 3.0), (''Bishop'', 3.2), (''Rook'', 5.0),
             (''Queen'', 9.0), (''King'', 200.0)]"

text \<open>\<^verbatim>\<open>for cell in reachable: if self.can_hit_on_cell(cell): hit_count += 1\<close>\<close>

fun hit_count_loop :: "board_ops \<Rightarrow> world \<Rightarrow> ref \<Rightarrow> cell list \<Rightarrow> nat \<Rightarrow> error + nat" where
  "hit_count_loop ops w self [] hit_count = Inr hit_count"
| "hit_count_loop ops w self (c # cs) hit_count =
     (case can_hit_on_cell ops w self c of
        Inl e \<Rightarrow> Inl e
      | Inr b \<Rightarrow> hit_count_loop ops w self cs (if b then hit_count + 1 else hit_count))"

text \<open>
  The two \<^verbatim>\<open>try\<close> blocks. \<^verbatim>\<open>except Exception\<close> catches every exception of the model.
  When the first block raised, \<open>reachable\<close> is unbound, the \<^verbatim>\<open>for\<close> statement of the
  second block raises \<open>UnboundLocalError\<close>, and its handler sets the pressure to zero.
  The result is a sum, so that an exception leaving \<^verbatim>\<open>evaluate\<close> would be a value of it.
\<close>

definition evaluate :: "board_ops \<Rightarrow> world \<Rightarrow> ref \<Rightarrow> (error + real) option" where
  "evaluate ops w self =
     (case get_reachable_cells ops w self of
        None \<Rightarrow> None
      | Some res \<Rightarrow>
          (let base = (case base_values (cls_name (kind (objs w self))) of
                         Some v \<Rightarrow> v | None \<Rightarrow> 0.0);
               reachable = (case res of Inl e \<Rightarrow> None | Inr cs \<Rightarrow> Some cs);
               mobility = (case res of Inl e \<Rightarrow> 0.0 | Inr cs \<Rightarrow> 0.05 * real (length cs));
               hits = (case reachable of
                         None \<Rightarrow> Inl UnboundLocalError
                       | Some cs \<Rightarrow> hit_count_loop ops w self cs 0);
               pressure = (case hits of Inl e \<Rightarrow> 0.0 | Inr n \<Rightarrow> 0.10 * real n)
           in Some (Inr (base + mobility + pressure))))"

section \<open>A reference board\<close>

text \<open>
  Modelled from the spec: the three occupancy queries of the board, whose source is not
  in \<^verbatim>\<open>pieces.py\<close>. Section 6 gives \<^verbatim>\<open>piece_can_enter_cell\<close> as "in-bounds and not
  friendly-occupied" and \<^verbatim>\<open>piece_can_hit_on_cell\<close> as "in-bounds and enemy-occupied".
  The bounds are those of a chess board, eight rows and eight columns, which the start
  rows 1 and 6 of the pawns fit. The check predicate stays a parameter. This board is an
  instance of the interface, used to run the model on concrete positions.
\<close>

definition is_valid_cell :: "cell \<Rightarrow> bool" where
  "is_valid_cell c = (0 \<le> fst c \<and> fst c < 8 \<and> 0 \<le> snd c \<and> snd c < 8)"

definition enemy_on :: "world \<Rightarrow> ref \<Rightarrow> cell \<Rightarrow> bool" where
  "enemy_on w p c =
     (case cells w c of None \<Rightarrow> False | Some q \<Rightarrow> white (objs w q) \<noteq> white (objs w p))"

definition friend_on :: "world \<Rightarrow> ref \<Rightarrow> cell \<Rightarrow> bool" where
  "friend_on w p c =
     (case cells w c of None \<Rightarrow> False | Some q \<Rightarrow> white (objs w q) = white (objs w p))"

definition chess_board :: "(world \<Rightarrow> bool \<Rightarrow> error + bool) \<Rightarrow> board_ops" where
  "chess_board chk =
     \<lparr>cell_is_valid_and_empty = (\<lambda>w c. Inr (is_valid_cell c \<and> cells w c = None)),
      piece_can_enter_cell = (\<lambda>w p c. Inr (is_valid_cell c \<and> \<not> friend_on w p c)),
      piece_can_hit_on_cell = (\<lambda>w p c. Inr (is_valid_cell c \<and> enemy_on w p c)),
      is_king_check_cached = chk\<rparr>"

section \<open>Notions used to state the properties\<close>

text \<open>
  The definitions of this section are not translations of the source. They name what the
  statements below talk about.
\<close>

text \<open>The material table as the spec states it, section 4.3.\<close>

definition base_material :: "kind \<Rightarrow> real" where
  "base_material k =
     (case k of Pawn \<Rightarrow> 1.0 | Knight \<Rightarrow> 3.0 | Bishop \<Rightarrow> 3.2 | Rook \<Rightarrow> 5.0
      | Queen \<Rightarrow> 9.0 | King \<Rightarrow> 200.0)"

text \<open>
  The cells of a ray: \<open>ray_cells\<close> lists the first \<open>n\<close> cells from a start cell,
  \<open>ray_cell r c d i\<close> is the cell \<open>i\<close> steps from the piece's cell in direction \<open>d\<close>.
\<close>

definition ray_cells :: "int \<Rightarrow> int \<Rightarrow> int \<Rightarrow> int \<Rightarrow> nat \<Rightarrow> cell list" where
  "ray_cells nr nc dr dc n = map (\<lambda>i. (nr + int i * dr, nc + int i * dc)) [0..<n]"

definition ray_cell :: "int \<Rightarrow> int \<Rightarrow> int \<times> int \<Rightarrow> nat \<Rightarrow> cell" where
  "ray_cell r c d i = (r + int i * fst d, c + int i * snd d)"

text \<open>
  What the loop of one ray does on the first cell that is not valid and empty: an exception
  of either query is raised, a cell that can be hit is appended, any other cell is not.
\<close>

definition ray_end :: "board_ops \<Rightarrow> world \<Rightarrow> ref \<Rightarrow> cell \<Rightarrow> cell list \<Rightarrow> (error + cell list) option" where
  "ray_end ops w self c acc =
     (case cell_is_valid_and_empty ops w c of
        Inl e \<Rightarrow> Some (Inl e)
      | Inr b \<Rightarrow>
          (case can_hit_on_cell ops w self c of
             Inl e \<Rightarrow> Some (Inl e)
           | Inr h \<Rightarrow> Some (Inr (if h then acc @ [c] else acc))))"

text \<open>
  A ray is blocked after \<open>n\<close> cells, with capture answer \<open>h\<close>: the first \<open>n\<close> cells are valid
  and empty, the next one is not, and the capture query on it answers \<open>h\<close>. Then
  \<open>ray_included\<close> lists the cells of that ray that the generator is to include.
\<close>

definition ray_blocked ::
  "board_ops \<Rightarrow> world \<Rightarrow> ref \<Rightarrow> int \<Rightarrow> int \<Rightarrow> int \<times> int \<Rightarrow> nat \<times> bool \<Rightarrow> bool" where
  "ray_blocked ops w self r c d nh =
     ((\<forall>i\<in>{1..fst nh}. cell_is_valid_and_empty ops w (ray_cell r c d i) = Inr True)
      \<and> cell_is_valid_and_empty ops w (ray_cell r c d (Suc (fst nh))) = Inr False
      \<and> can_hit_on_cell ops w self (ray_cell r c d (Suc (fst nh))) = Inr (snd nh))"

definition ray_included :: "int \<Rightarrow> int \<Rightarrow> int \<times> int \<Rightarrow> nat \<times> bool \<Rightarrow> cell list" where
  "ray_included r c d nh =
     map (ray_cell r c d) [1..<Suc (fst nh)]
       @ (if snd nh then [ray_cell r c d (Suc (fst nh))] else [])"

definition directions_of :: "kind \<Rightarrow> (int \<times> int) list" where
  "directions_of k =
     (case k of Rook \<Rightarrow> rook_directions | Bishop \<Rightarrow> bishop_directions
      | Queen \<Rightarrow> queen_directions | _ \<Rightarrow> [])"

text \<open>
  Results that may be an exception or may not come at all: a list put in front of a result,
  a computation run after a result, and two results concatenated.
\<close>

definition with_prefix :: "cell list \<Rightarrow> (error + cell list) option \<Rightarrow> (error + cell list) option" where
  "with_prefix acc res =
     (case res of None \<Rightarrow> None | Some (Inl e) \<Rightarrow> Some (Inl e) | Some (Inr xs) \<Rightarrow> Some (Inr (acc @ xs)))"

definition then_rays ::
  "(error + cell list) option \<Rightarrow> (cell list \<Rightarrow> (error + cell list) option)
     \<Rightarrow> (error + cell list) option" where
  "then_rays res k =
     (case res of None \<Rightarrow> None | Some (Inl e) \<Rightarrow> Some (Inl e) | Some (Inr xs) \<Rightarrow> k xs)"

definition concat_results ::
  "(error + cell list) option \<Rightarrow> (error + cell list) option \<Rightarrow> (error + cell list) option" where
  "concat_results a b =
     (case a of
        None \<Rightarrow> None
      | Some (Inl e) \<Rightarrow> Some (Inl e)
      | Some (Inr xs) \<Rightarrow>
          (case b of
             None \<Rightarrow> None
           | Some (Inl e) \<Rightarrow> Some (Inl e)
           | Some (Inr ys) \<Rightarrow> Some (Inr (xs @ ys))))"

text \<open>
  A board is bounded when the cells it reports as valid and empty lie within \<open>n\<close> rows and
  columns of the origin. Its capture query looks at the colour of the piece only when two
  pieces of one colour get the same answers.
\<close>

definition bounded_board :: "board_ops \<Rightarrow> world \<Rightarrow> int \<Rightarrow> bool" where
  "bounded_board ops w n =
     (\<forall>r c. cell_is_valid_and_empty ops w (r, c) = Inr True \<longrightarrow> \<bar>r\<bar> \<le> n \<and> \<bar>c\<bar> \<le> n)"

definition colour_only :: "board_ops \<Rightarrow> world \<Rightarrow> bool" where
  "colour_only ops w =
     (\<forall>p p' c. white (objs w p) = white (objs w p') \<longrightarrow>
        piece_can_hit_on_cell ops w p c = piece_can_hit_on_cell ops w p' c)"

section \<open>Example positions\<close>

text \<open>A check predicate that never reports check, and one that always raises.\<close>

definition no_check :: "world \<Rightarrow> bool \<Rightarrow> error + bool" where
  "no_check w wh = Inr False"

definition failing_check :: "world \<Rightarrow> bool \<Rightarrow> error + bool" where
  "failing_check w wh = Inl BoardQueryFailure"

text \<open>A reference board whose capture query always raises.\<close>

definition failing_capture_board :: board_ops where
  "failing_capture_board =
     (chess_board no_check)\<lparr>piece_can_hit_on_cell := (\<lambda>w p c. Inl BoardQueryFailure)\<rparr>"

text \<open>An empty board and a white rook that was never placed.\<close>

definition unplaced_world :: world where
  "unplaced_world =
     \<lparr>cells = (\<lambda>c. None), objs = (\<lambda>p. \<lparr>kind = Rook, white = True, cell = None\<rparr>)\<rparr>"

text \<open>
  A white pawn on its start row at (1, 0) and a black pawn at (2, 1); a queen at (0, 0)
  with a rook and a bishop of her colour that carry the same cell; a white rook at (0, 0)
  with a black pawn at (0, 2) and a white pawn at (2, 0); a lone white knight at (3, 3).
\<close>

definition pawn_world :: world where
  "pawn_world =
     \<lparr>cells = (\<lambda>c. None)((1, 0) := Some 0, (2, 1) := Some 1),
      objs = (\<lambda>p. if p = 0 then \<lparr>kind = Pawn, white = True, cell = Some (1, 0)\<rparr>
                   else \<lparr>kind = Pawn, white = False, cell = Some (2, 1)\<rparr>)\<rparr>"

definition sliders_world :: world where
  "sliders_world =
     \<lparr>cells = (\<lambda>c. None)((0, 0) := Some 0),
      objs = (\<lambda>p. if p = 0 then \<lparr>kind = Queen, white = True, cell = Some (0, 0)\<rparr>
                   else if p = 1 then \<lparr>kind = Rook, white = True, cell = Some (0, 0)\<rparr>
                   else \<lparr>kind = Bishop, white = True, cell = Some (0, 0)\<rparr>)\<rparr>"

definition rook_world :: world where
  "rook_world =
     \<lparr>cells = (\<lambda>c. None)((0, 0) := Some 0, (0, 2) := Some 1, (2, 0) := Some 2),
      objs = (\<lambda>p. if p = 0 then \<lparr>kind = Rook, white = True, cell = Some (0, 0)\<rparr>
                   else if p = 1 then \<lparr>kind = Pawn, white = False, cell = Some (0, 2)\<rparr>
                   else \<lparr>kind = Pawn, white = True, cell = Some (2, 0)\<rparr>)\<rparr>"

definition knight_world :: world where
  "knight_world =
     \<lparr>cells = (\<lambda>c. None)((3, 3) := Some 0),
      objs = (\<lambda>p. \<lparr>kind = Knight, white = True, cell = Some (3, 3)\<rparr>)\<rparr>"

text \<open>
  A pawn that was captured on (1, 0) and still carries that cell, and the black rook that
  captured it and stands there.
\<close>

definition captured_world :: world where
  "captured_world =
     \<lparr>cells = (\<lambda>c. None)((1, 0) := Some 1),
      objs = (\<lambda>p. if p = 0 then \<lparr>kind = Pawn, white = True, cell = Some (1, 0)\<rparr>
                   else \<lparr>kind = Rook, white = False, cell = Some (1, 0)\<rparr>)\<rparr>"

text \<open>
  Check predicates that read the position: one reports check when the cell (3, 0) is
  occupied, one raises when it is, one reports check when piece 0 does not carry the
  cell (1, 0).
\<close>

definition check_when_3_0_taken :: "world \<Rightarrow> bool \<Rightarrow> error + bool" where
  "check_when_3_0_taken w wh = Inr (cells w (3, 0) \<noteq> None)"

definition check_fails_on_3_0 :: "world \<Rightarrow> bool \<Rightarrow> error + bool" where
  "check_fails_on_3_0 w wh = (if cells w (3, 0) \<noteq> None then Inl BoardQueryFailure else Inr False)"

definition check_when_moved :: "world \<Rightarrow> bool \<Rightarrow> error + bool" where
  "check_when_moved w wh = Inr (cell (objs w 0) \<noteq> Some (1, 0))"

section \<open>Notions used to state the properties of the legality filter\<close>

text \<open>
  The board holds the piece on the cell that the piece carries; every piece on the board
  carries the cell it stands on; the board holds the piece on no cell other than the one
  the piece carries.
\<close>

definition on_board :: "world \<Rightarrow> ref \<Rightarrow> bool" where
  "on_board w self =
     (case cell (objs w self) of None \<Rightarrow> False | Some c \<Rightarrow> cells w c = Some self)"

definition consistent :: "world \<Rightarrow> bool" where
  "consistent w = (\<forall>c p. cells w c = Some p \<longrightarrow> cell (objs w p) = Some c)"

definition only_on_own_cell :: "world \<Rightarrow> ref \<Rightarrow> bool" where
  "only_on_own_cell w self = (\<forall>c. cells w c = Some self \<longrightarrow> cell (objs w self) = Some c)"

text \<open>
  The answer of the check predicate for the colour of the mover, on the board \<open>w\<close> with the
  mover placed on the target: the query of one turn of the loop. As in the source, the
  mover is placed with \<open>set_cell\<close> and its original cell is not cleared.
\<close>

definition in_check_after :: "board_ops \<Rightarrow> world \<Rightarrow> ref \<Rightarrow> cell \<Rightarrow> error + bool" where
  "in_check_after ops w self target =
     is_king_check_cached ops (set_cell w target (Some self)) (is_white w self)"

text \<open>
  The three writes of one turn of the loop, \<^verbatim>\<open>set_cell(target, self)\<close>,
  \<^verbatim>\<open>set_cell(old_cell, self)\<close> and \<^verbatim>\<open>set_cell(target, captured)\<close>, and the board that
  the turns for the candidates \<open>pre\<close> leave for the candidate after them.
\<close>

definition simulate_restore :: "world \<Rightarrow> ref \<Rightarrow> cell \<Rightarrow> cell \<Rightarrow> world" where
  "simulate_restore w self oc target =
     set_cell (set_cell (set_cell w target (Some self)) oc (Some self)) target
       (get_cell w target)"

fun board_before :: "world \<Rightarrow> ref \<Rightarrow> cell \<Rightarrow> cell list \<Rightarrow> world" where
  "board_before w self oc [] = w"
| "board_before w self oc (t # pre) = board_before (simulate_restore w self oc t) self oc pre"

text \<open>
  The loop without its restoring writes, for a board that every turn leaves as it found
  it: each candidate is tried on the board of the call and kept when the answer is false;
  an exception of the predicate ends the loop with the mover on the target. The lemma
  \<open>filter_loop_fixed\<close> shows that \<open>filter_loop\<close> computes this on a position where board
  and pieces agree.
\<close>

fun filter_fixed ::
  "board_ops \<Rightarrow> world \<Rightarrow> ref \<Rightarrow> cell list \<Rightarrow> cell list \<Rightarrow> (error + cell list) \<times> world" where
  "filter_fixed ops w self [] valid = (Inr valid, w)"
| "filter_fixed ops w self (target # ts) valid =
     (case in_check_after ops w self target of
        Inl e \<Rightarrow> (Inl e, set_cell w target (Some self))
      | Inr in_check \<Rightarrow>
          filter_fixed ops w self ts (if \<not> in_check then valid @ [target] else valid))"

section \<open>The reference board\<close>

lemma chess_board_bounded: "bounded_board (chess_board chk) w 8"
  by (auto simp: bounded_board_def chess_board_def is_valid_cell_def)

lemma failing_capture_board_bounded: "bounded_board failing_capture_board w 8"
  by (auto simp: bounded_board_def failing_capture_board_def chess_board_def is_valid_cell_def)

lemma chess_board_colour_only: "colour_only (chess_board chk) w"
  by (auto simp: colour_only_def chess_board_def enemy_on_def split: option.splits)

section \<open>Pawn moves\<close>





lemma pawn_world_reachable:
  "get_reachable_cells (chess_board chk) pawn_world 0 = Some (Inr [(2, 0), (3, 0), (2, 1)])"
  by (simp add: get_reachable_cells_def pawn_get_reachable_cells_def pawn_forward_def
      append_if_hit_def can_hit_on_cell_def is_white_def direction_def start_row_def
      chess_board_def is_valid_cell_def enemy_on_def pawn_world_def)



section \<open>Sliding moves\<close>

subsection \<open>One ray\<close>

lemma ray_loop_error:
  "cell_is_valid_and_empty ops w (nr, nc) = Inl e \<Longrightarrow>
   ray_loop ops w self dr dc nr nc acc = Some (Inl e)"
  by (subst ray_loop.simps) simp

lemma ray_loop_free:
  "cell_is_valid_and_empty ops w (nr, nc) = Inr True \<Longrightarrow>
   ray_loop ops w self dr dc nr nc acc =
     ray_loop ops w self dr dc (nr + dr) (nc + dc) (acc @ [(nr, nc)])"
  by (subst ray_loop.simps) simp

lemma ray_loop_blocked:
  "cell_is_valid_and_empty ops w (nr, nc) = Inr False \<Longrightarrow>
   ray_loop ops w self dr dc nr nc acc =
     (case can_hit_on_cell ops w self (nr, nc) of
        Inl e \<Rightarrow> Some (Inl e)
      | Inr h \<Rightarrow> Some (Inr (if h then acc @ [(nr, nc)] else acc)))"
  by (subst ray_loop.simps) simp

lemma ray_cells_Suc:
  "ray_cells nr nc dr dc (Suc n) = (nr, nc) # ray_cells (nr + dr) (nc + dc) dr dc n"
proof -
  have "[0..<Suc n] = 0 # map Suc [0..<n]"
    by (simp add: upt_conv_Cons map_Suc_upt del: upt_Suc)
  then show ?thesis
    by (simp add: ray_cells_def comp_def distrib_right add.assoc del: upt_Suc)
qed

lemma ray_shift: "(a::int) + int (Suc i) * d = (a + d) + int i * d"
  by (simp add: distrib_right)

lemma ray_loop_prefix:
  "(\<forall>i<n. cell_is_valid_and_empty ops w (nr + int i * dr, nc + int i * dc) = Inr True) \<Longrightarrow>
   ray_loop ops w self dr dc nr nc acc =
     ray_loop ops w self dr dc (nr + int n * dr) (nc + int n * dc)
       (acc @ ray_cells nr nc dr dc n)"
proof (induction n arbitrary: nr nc acc)
  case 0
  then show ?case by (simp add: ray_cells_def)
next
  case (Suc n)
  have "cell_is_valid_and_empty ops w (nr + int 0 * dr, nc + int 0 * dc) = Inr True"
    using Suc.prems by blast
  then have here: "cell_is_valid_and_empty ops w (nr, nc) = Inr True"
    by simp
  have rest: "\<forall>i<n. cell_is_valid_and_empty ops w
      ((nr + dr) + int i * dr, (nc + dc) + int i * dc) = Inr True"
  proof (intro allI impI)
    fix i assume "i < n"
    then have "Suc i < Suc n" by simp
    with Suc.prems
    have "cell_is_valid_and_empty ops w (nr + int (Suc i) * dr, nc + int (Suc i) * dc)
        = Inr True"
      by blast
    then show "cell_is_valid_and_empty ops w
        ((nr + dr) + int i * dr, (nc + dc) + int i * dc) = Inr True"
      unfolding ray_shift .
  qed
  have "ray_loop ops w self dr dc nr nc acc =
      ray_loop ops w self dr dc (nr + dr) (nc + dc) (acc @ [(nr, nc)])"
    by (rule ray_loop_free [OF here])
  also have "\<dots> = ray_loop ops w self dr dc ((nr + dr) + int n * dr) ((nc + dc) + int n * dc)
      ((acc @ [(nr, nc)]) @ ray_cells (nr + dr) (nc + dc) dr dc n)"
    by (rule Suc.IH [OF rest])
  also have "\<dots> = ray_loop ops w self dr dc (nr + int (Suc n) * dr) (nc + int (Suc n) * dc)
      (acc @ ray_cells nr nc dr dc (Suc n))"
    unfolding ray_shift ray_cells_Suc by simp
  finally show ?case .
qed

lemma ray_loop_diverges:
  assumes "ray_loop ops w self dr dc nr nc acc = Some y"
  shows "\<exists>i. cell_is_valid_and_empty ops w (nr + int i * dr, nc + int i * dc) \<noteq> Inr True"
proof (rule ray_loop.raw_induct
    [where P = "\<lambda>ops w self dr dc nr nc acc y.
       \<exists>i. cell_is_valid_and_empty ops w (nr + int i * dr, nc + int i * dc) \<noteq> Inr True",
     OF _ assms])
  fix f :: "board_ops \<Rightarrow> world \<Rightarrow> ref \<Rightarrow> int \<Rightarrow> int \<Rightarrow> int \<Rightarrow> int \<Rightarrow> cell list
      \<Rightarrow> (error + cell list) option"
    and ops w self dr dc nr nc acc y
  assume IH: "\<And>ops w self dr dc nr nc acc y. f ops w self dr dc nr nc acc = Some y \<Longrightarrow>
      \<exists>i. cell_is_valid_and_empty ops w (nr + int i * dr, nc + int i * dc) \<noteq> Inr True"
  assume body: "(case cell_is_valid_and_empty ops w (nr, nc) of
        Inl e \<Rightarrow> Some (Inl e)
      | Inr b \<Rightarrow>
          (if b then f ops w self dr dc (nr + dr) (nc + dc) (acc @ [(nr, nc)])
           else (case can_hit_on_cell ops w self (nr, nc) of
                   Inl e \<Rightarrow> Some (Inl e)
                 | Inr h \<Rightarrow> Some (Inr (if h then acc @ [(nr, nc)] else acc))))) = Some y"
  show "\<exists>i. cell_is_valid_and_empty ops w (nr + int i * dr, nc + int i * dc) \<noteq> Inr True"
  proof (cases "cell_is_valid_and_empty ops w (nr, nc) = Inr True")
    case True
    with body have "f ops w self dr dc (nr + dr) (nc + dc) (acc @ [(nr, nc)]) = Some y"
      by simp
    from IH [OF this] obtain i where
      "cell_is_valid_and_empty ops w (nr + dr + int i * dr, nc + dc + int i * dc) \<noteq> Inr True"
      by blast
    then have "cell_is_valid_and_empty ops w
        (nr + int (Suc i) * dr, nc + int (Suc i) * dc) \<noteq> Inr True"
      unfolding ray_shift .
    then show ?thesis by blast
  next
    case False
    then have "cell_is_valid_and_empty ops w (nr + int 0 * dr, nc + int 0 * dc) \<noteq> Inr True"
      by simp
    then show ?thesis by blast
  qed
qed

lemma with_prefix_simps:
  "with_prefix acc None = None"
  "with_prefix acc (Some (Inl e)) = Some (Inl e)"
  "with_prefix acc (Some (Inr xs)) = Some (Inr (acc @ xs))"
  by (simp_all add: with_prefix_def)

lemma with_prefix_Nil: "with_prefix [] res = res"
  by (simp add: with_prefix_def split: option.splits sum.splits)

lemma with_prefix_append: "with_prefix xs (with_prefix ys res) = with_prefix (xs @ ys) res"
  by (simp add: with_prefix_def split: option.splits sum.splits)

lemma ray_end_prefix: "ray_end ops w self c (acc @ xs) = with_prefix acc (ray_end ops w self c xs)"
  by (simp add: ray_end_def with_prefix_def split: sum.splits)

lemma ray_loop_here:
  assumes "cell_is_valid_and_empty ops w (nr, nc) \<noteq> Inr True"
  shows "ray_loop ops w self dr dc nr nc acc = ray_end ops w self (nr, nc) acc"
proof (cases "cell_is_valid_and_empty ops w (nr, nc)")
  case (Inl e)
  then show ?thesis by (simp add: ray_loop_error ray_end_def)
next
  case (Inr b)
  with assms have "cell_is_valid_and_empty ops w (nr, nc) = Inr False" by simp
  then show ?thesis by (simp add: ray_loop_blocked ray_end_def)
qed

lemma ray_loop_stops:
  assumes "\<forall>i<n. cell_is_valid_and_empty ops w (nr + int i * dr, nc + int i * dc) = Inr True"
    and "cell_is_valid_and_empty ops w (nr + int n * dr, nc + int n * dc) \<noteq> Inr True"
  shows "ray_loop ops w self dr dc nr nc acc =
     ray_end ops w self (nr + int n * dr, nc + int n * dc) (acc @ ray_cells nr nc dr dc n)"
  using ray_loop_prefix [OF assms(1), of self acc] ray_loop_here [OF assms(2)]
  by simp

lemma ray_loop_never:
  assumes "\<forall>i. cell_is_valid_and_empty ops w (nr + int i * dr, nc + int i * dc) = Inr True"
  shows "ray_loop ops w self dr dc nr nc acc = None"
proof (cases "ray_loop ops w self dr dc nr nc acc")
  case None
  then show ?thesis .
next
  case (Some y)
  from ray_loop_diverges [OF this] assms show ?thesis by blast
qed

lemma first_block:
  assumes "\<exists>i::nat. P i"
  shows "\<exists>n. (\<forall>i<n. \<not> P i) \<and> P n"
  using assms by (meson exists_least_iff)

lemma ray_loop_cases:
  obtains (never) "ray_loop ops w self dr dc nr nc acc = None"
      "\<And>self' acc'. ray_loop ops w self' dr dc nr nc acc' = None"
    | (stops) n where
      "\<And>self' acc'. ray_loop ops w self' dr dc nr nc acc' =
         ray_end ops w self' (nr + int n * dr, nc + int n * dc) (acc' @ ray_cells nr nc dr dc n)"
proof (cases "\<exists>i. cell_is_valid_and_empty ops w (nr + int i * dr, nc + int i * dc) \<noteq> Inr True")
  case True
  from first_block [OF this] obtain n where
    n: "\<forall>i<n. cell_is_valid_and_empty ops w (nr + int i * dr, nc + int i * dc) = Inr True"
      "cell_is_valid_and_empty ops w (nr + int n * dr, nc + int n * dc) \<noteq> Inr True"
    by auto
  show ?thesis
    by (rule stops [of n]) (rule ray_loop_stops [OF n])
next
  case False
  then have "\<forall>i. cell_is_valid_and_empty ops w (nr + int i * dr, nc + int i * dc) = Inr True"
    by blast
  then show ?thesis
    by (intro never ray_loop_never)
qed

lemma ray_loop_acc:
  "ray_loop ops w self dr dc nr nc acc = with_prefix acc (ray_loop ops w self dr dc nr nc [])"
proof (cases rule: ray_loop_cases [of ops w self dr dc nr nc acc])
  case never
  then show ?thesis by (simp add: with_prefix_simps)
next
  case (stops n)
  show ?thesis
    unfolding stops by (simp add: ray_end_prefix)
qed

lemma ray_end_cong_self:
  assumes "\<forall>c. can_hit_on_cell ops w self' c = can_hit_on_cell ops w self c"
  shows "ray_end ops w self' c acc = ray_end ops w self c acc"
proof -
  from assms have "can_hit_on_cell ops w self' c = can_hit_on_cell ops w self c"
    by blast
  then show ?thesis by (simp add: ray_end_def split: sum.splits)
qed

lemma ray_loop_cong_self:
  assumes "\<forall>c. can_hit_on_cell ops w self' c = can_hit_on_cell ops w self c"
  shows "ray_loop ops w self' dr dc nr nc acc = ray_loop ops w self dr dc nr nc acc"
proof (cases rule: ray_loop_cases [of ops w self dr dc nr nc acc])
  case never
  then show ?thesis by simp
next
  case (stops n)
  show ?thesis
    unfolding stops by (rule ray_end_cong_self [OF assms])
qed

subsection \<open>All rays of a piece\<close>

lemma rays_Cons:
  "rays ops w self r c ((dr, dc) # ds) acc =
     then_rays (ray_loop ops w self dr dc (r + dr) (c + dc) acc) (rays ops w self r c ds)"
  by (simp add: then_rays_def split: option.splits sum.splits)

lemma rays_append:
  "rays ops w self r c (ds @ ds') acc =
     then_rays (rays ops w self r c ds acc) (rays ops w self r c ds')"
proof (induction ds arbitrary: acc)
  case Nil
  then show ?case by (simp add: then_rays_def)
next
  case (Cons d ds)
  obtain dr dc where d: "d = (dr, dc)" by (cases d)
  show ?case
    by (cases "ray_loop ops w self dr dc (r + dr) (c + dc) acc")
      (auto simp: d then_rays_def Cons.IH split: sum.splits)
qed

lemma rays_acc:
  "rays ops w self r c ds acc = with_prefix acc (rays ops w self r c ds [])"
proof (induction ds arbitrary: acc)
  case Nil
  then show ?case by (simp add: with_prefix_simps)
next
  case (Cons d ds)
  obtain dr dc where d: "d = (dr, dc)" by (cases d)
  have acc: "ray_loop ops w self dr dc (r + dr) (c + dc) acc =
      with_prefix acc (ray_loop ops w self dr dc (r + dr) (c + dc) [])"
    by (rule ray_loop_acc)
  show ?case
  proof (cases "ray_loop ops w self dr dc (r + dr) (c + dc) []")
    case None
    then show ?thesis by (simp add: d acc with_prefix_simps)
  next
    case (Some res)
    show ?thesis
    proof (cases res)
      case (Inl e)
      with Some show ?thesis by (simp add: d acc with_prefix_simps)
    next
      case (Inr zs)
      have "rays ops w self r c ds (acc @ zs) = with_prefix (acc @ zs) (rays ops w self r c ds [])"
        by (rule Cons.IH)
      moreover have "rays ops w self r c ds zs = with_prefix zs (rays ops w self r c ds [])"
        by (rule Cons.IH)
      ultimately show ?thesis
        using Some Inr by (simp add: d acc with_prefix_simps with_prefix_append)
    qed
  qed
qed

lemma rays_cong_self:
  assumes "\<forall>c. can_hit_on_cell ops w self' c = can_hit_on_cell ops w self c"
  shows "rays ops w self' r c ds acc = rays ops w self r c ds acc"
proof (induction ds arbitrary: acc)
  case Nil
  then show ?case by simp
next
  case (Cons d ds)
  obtain dr dc where d: "d = (dr, dc)" by (cases d)
  show ?case
    by (simp add: d ray_loop_cong_self [OF assms] Cons.IH split: option.splits sum.splits)
qed

lemma queen_directions_split: "queen_directions = rook_directions @ bishop_directions"
  by (simp add: queen_directions_def rook_directions_def bishop_directions_def)

lemma sliding_queen:
  "sliding_get_reachable_cells queen_directions ops w self =
     concat_results (sliding_get_reachable_cells rook_directions ops w self)
       (sliding_get_reachable_cells bishop_directions ops w self)"
proof (cases "cell (objs w self)")
  case None
  then show ?thesis
    by (simp add: sliding_get_reachable_cells_def concat_results_def)
next
  case (Some rc)
  obtain r c where rc: "rc = (r, c)" by (cases rc)
  have "rays ops w self r c (rook_directions @ bishop_directions) [] =
      then_rays (rays ops w self r c rook_directions [])
        (\<lambda>xs. with_prefix xs (rays ops w self r c bishop_directions []))"
    unfolding rays_append
    by (simp add: then_rays_def rays_acc [symmetric] split: option.splits sum.splits)
  then show ?thesis
    using Some
    by (simp add: rc sliding_get_reachable_cells_def queen_directions_split concat_results_def
        then_rays_def with_prefix_def split: option.splits sum.splits)
qed

lemma sliding_cong_self:
  assumes "cell (objs w self') = cell (objs w self)"
    and "\<forall>c. can_hit_on_cell ops w self' c = can_hit_on_cell ops w self c"
  shows "sliding_get_reachable_cells ds ops w self' = sliding_get_reachable_cells ds ops w self"
  using assms(1) rays_cong_self [OF assms(2)]
  by (simp add: sliding_get_reachable_cells_def split: option.splits prod.splits)

subsection \<open>Termination on a bounded board\<close>

lemma far_away:
  fixes a d n k :: int
  assumes "d \<noteq> 0" and "k = \<bar>n\<bar> + \<bar>a\<bar> + 1"
  shows "n < \<bar>a + k * d\<bar>"
proof -
  have k: "0 \<le> k" by (simp add: assms(2))
  from assms(1) have "1 \<le> \<bar>d\<bar>" by simp
  then have "k * 1 \<le> k * \<bar>d\<bar>" using k by (rule mult_left_mono)
  then have "k \<le> \<bar>k * d\<bar>" using k by (simp add: abs_mult)
  then show ?thesis unfolding assms(2) by linarith
qed

lemma ray_leaves:
  assumes "bounded_board ops w n" and "dr \<noteq> 0 \<or> dc \<noteq> 0"
  shows "\<exists>i. cell_is_valid_and_empty ops w (nr + int i * dr, nc + int i * dc) \<noteq> Inr True"
proof (rule ccontr)
  assume "\<not> ?thesis"
  then have all: "\<And>i. cell_is_valid_and_empty ops w (nr + int i * dr, nc + int i * dc) = Inr True"
    by blast
  have inside: "\<And>i. \<bar>nr + int i * dr\<bar> \<le> n \<and> \<bar>nc + int i * dc\<bar> \<le> n"
    using assms(1) all unfolding bounded_board_def by blast
  from assms(2) show False
  proof
    assume dr: "dr \<noteq> 0"
    define k where "k = \<bar>n\<bar> + \<bar>nr\<bar> + 1"
    have "0 \<le> k" by (simp add: k_def)
    then have "int (nat k) = k" by simp
    with inside [of "nat k"] have "\<bar>nr + k * dr\<bar> \<le> n" by simp
    with far_away [OF dr k_def] show False by simp
  next
    assume dc: "dc \<noteq> 0"
    define k where "k = \<bar>n\<bar> + \<bar>nc\<bar> + 1"
    have "0 \<le> k" by (simp add: k_def)
    then have "int (nat k) = k" by simp
    with inside [of "nat k"] have "\<bar>nc + k * dc\<bar> \<le> n" by simp
    with far_away [OF dc k_def] show False by simp
  qed
qed

lemma ray_end_returns: "ray_end ops w self c acc \<noteq> None"
  by (simp add: ray_end_def split: sum.splits)

lemma ray_loop_terminates:
  assumes "bounded_board ops w n" and "dr \<noteq> 0 \<or> dc \<noteq> 0"
  shows "ray_loop ops w self dr dc nr nc acc \<noteq> None"
proof -
  from first_block [OF ray_leaves [OF assms, of nr nc]] obtain k where
    k: "\<forall>i<k. cell_is_valid_and_empty ops w (nr + int i * dr, nc + int i * dc) = Inr True"
      "cell_is_valid_and_empty ops w (nr + int k * dr, nc + int k * dc) \<noteq> Inr True"
    by auto
  show ?thesis
    unfolding ray_loop_stops [OF k] by (rule ray_end_returns)
qed

lemma rays_terminate:
  assumes "bounded_board ops w n" and "\<forall>d\<in>set ds. fst d \<noteq> 0 \<or> snd d \<noteq> 0"
  shows "rays ops w self r c ds acc \<noteq> None"
  using assms(2)
proof (induction ds arbitrary: acc)
  case Nil
  then show ?case by simp
next
  case (Cons d ds)
  obtain dr dc where d: "d = (dr, dc)" by (cases d)
  from Cons.prems have nz: "dr \<noteq> 0 \<or> dc \<noteq> 0" by (simp add: d)
  from Cons.prems have rest: "\<forall>d\<in>set ds. fst d \<noteq> 0 \<or> snd d \<noteq> 0" by simp
  from ray_loop_terminates [OF assms(1) nz] obtain res where
    res: "ray_loop ops w self dr dc (r + dr) (c + dc) acc = Some res"
    by blast
  show ?case
    using Cons.IH [OF rest] by (simp add: d res split: sum.splits)
qed

lemma directions_nonzero:
  "\<forall>d\<in>set rook_directions. fst d \<noteq> 0 \<or> snd d \<noteq> 0"
  "\<forall>d\<in>set bishop_directions. fst d \<noteq> 0 \<or> snd d \<noteq> 0"
  "\<forall>d\<in>set queen_directions. fst d \<noteq> 0 \<or> snd d \<noteq> 0"
  by (simp_all add: rook_directions_def bishop_directions_def queen_directions_def)

lemma sliding_terminates:
  assumes "bounded_board ops w n" and "\<forall>d\<in>set ds. fst d \<noteq> 0 \<or> snd d \<noteq> 0"
  shows "sliding_get_reachable_cells ds ops w self \<noteq> None"
  using rays_terminate [OF assms]
  by (simp add: sliding_get_reachable_cells_def split: option.splits prod.splits)

lemma get_reachable_cells_terminates:
  assumes "bounded_board ops w n"
  shows "get_reachable_cells ops w self \<noteq> None"
  using sliding_terminates [OF assms directions_nonzero(1)]
    sliding_terminates [OF assms directions_nonzero(2)]
    sliding_terminates [OF assms directions_nonzero(3)]
  by (simp add: get_reachable_cells_def rook_get_reachable_cells_def
      bishop_get_reachable_cells_def queen_get_reachable_cells_def split: kind.splits)

subsection \<open>The cells of a ray\<close>

lemma ray_cells_shift:
  "ray_cells (r + dr) (c + dc) dr dc n = map (ray_cell r c (dr, dc)) [1..<Suc n]"
proof -
  have "map (ray_cell r c (dr, dc)) [Suc 0..<Suc n] = map (ray_cell r c (dr, dc) \<circ> Suc) [0..<n]"
    by (simp only: map_Suc_upt [symmetric] map_map)
  also have "\<dots> = ray_cells (r + dr) (c + dc) dr dc n"
    unfolding ray_cells_def ray_cell_def comp_def fst_conv snd_conv ray_shift ..
  finally show ?thesis by simp
qed

lemma ray_loop_blocked_ray:
  assumes "ray_blocked ops w self r c (dr, dc) (n, h)"
  shows "ray_loop ops w self dr dc (r + dr) (c + dc) acc =
     Some (Inr (acc @ ray_included r c (dr, dc) (n, h)))"
proof -
  have free: "\<forall>i<n. cell_is_valid_and_empty ops w
      ((r + dr) + int i * dr, (c + dc) + int i * dc) = Inr True"
  proof (intro allI impI)
    fix i assume "i < n"
    then have "Suc i \<in> {1..n}" by simp
    with assms have "cell_is_valid_and_empty ops w (ray_cell r c (dr, dc) (Suc i)) = Inr True"
      unfolding ray_blocked_def fst_conv by blast
    then show "cell_is_valid_and_empty ops w
        ((r + dr) + int i * dr, (c + dc) + int i * dc) = Inr True"
      unfolding ray_cell_def fst_conv snd_conv ray_shift .
  qed
  from assms have "cell_is_valid_and_empty ops w (ray_cell r c (dr, dc) (Suc n)) = Inr False"
    unfolding ray_blocked_def fst_conv by blast
  then have stop: "cell_is_valid_and_empty ops w
      ((r + dr) + int n * dr, (c + dc) + int n * dc) = Inr False"
    unfolding ray_cell_def fst_conv snd_conv ray_shift .
  from assms have "can_hit_on_cell ops w self (ray_cell r c (dr, dc) (Suc n)) = Inr h"
    unfolding ray_blocked_def fst_conv snd_conv by blast
  then have hit: "can_hit_on_cell ops w self
      ((r + dr) + int n * dr, (c + dc) + int n * dc) = Inr h"
    unfolding ray_cell_def fst_conv snd_conv ray_shift .
  have last: "ray_cell r c (dr, dc) (Suc n) = ((r + dr) + int n * dr, (c + dc) + int n * dc)"
    unfolding ray_cell_def fst_conv snd_conv ray_shift ..
  from stop have ne: "cell_is_valid_and_empty ops w
      ((r + dr) + int n * dr, (c + dc) + int n * dc) \<noteq> Inr True"
    by simp
  show ?thesis
    unfolding ray_loop_stops [OF free ne]
    by (simp add: ray_end_def stop hit ray_included_def ray_cells_shift last)
qed

lemma rays_blocked:
  assumes "list_all2 (ray_blocked ops w self r c) ds nhs"
  shows "rays ops w self r c ds acc =
     Some (Inr (acc @ concat (map2 (ray_included r c) ds nhs)))"
  using assms
proof (induction ds nhs arbitrary: acc rule: list_all2_induct)
  case Nil
  then show ?case by simp
next
  case (Cons d ds nh nhs)
  obtain dr dc where d: "d = (dr, dc)" by (cases d)
  obtain n h where nh: "nh = (n, h)" by (cases nh)
  from Cons.hyps(1) have "ray_loop ops w self dr dc (r + dr) (c + dc) acc =
      Some (Inr (acc @ ray_included r c (dr, dc) (n, h)))"
    unfolding d nh by (rule ray_loop_blocked_ray)
  then show ?case
    by (simp add: d nh Cons.IH)
qed

lemma rook_world_blocked:
  "list_all2 (ray_blocked (chess_board no_check) rook_world 0 0 0)
     (directions_of Rook) [(0, False), (1, False), (0, False), (1, True)]"
  by (simp add: directions_of_def rook_directions_def ray_blocked_def ray_cell_def
      can_hit_on_cell_def chess_board_def is_valid_cell_def enemy_on_def rook_world_def)

text \<open>
  Claim C4. For a rook, bishop or queen on cell \<open>(r, c)\<close>: when each ray of the piece, in the
  order of its direction list, has \<open>n\<close> consecutive valid and empty cells followed by a cell
  that is not valid and empty, on which the capture query answers \<open>h\<close>, then the generation
  returns, ray after ray, exactly those \<open>n\<close> cells followed by the blocking cell when \<open>h\<close> is
  true, and nothing else: a blocking cell that cannot be hit (a friendly piece, or a cell
  off the board) ends the ray without being included, and no cell beyond the blocking cell
  is included.
\<close>

theorem sliding_rays:
  assumes "kind (objs w self) \<in> {Rook, Bishop, Queen}"
    and "cell (objs w self) = Some (r, c)"
    and "list_all2 (ray_blocked ops w self r c) (directions_of (kind (objs w self))) nhs"
  shows "get_reachable_cells ops w self =
     Some (Inr (concat (map2 (ray_included r c) (directions_of (kind (objs w self))) nhs)))"
proof -
  have "get_reachable_cells ops w self =
      rays ops w self r c (directions_of (kind (objs w self))) []"
    using assms(1,2)
    by (auto simp: get_reachable_cells_def rook_get_reachable_cells_def
        bishop_get_reachable_cells_def queen_get_reachable_cells_def
        sliding_get_reachable_cells_def directions_of_def)
  then show ?thesis
    by (simp add: rays_blocked [OF assms(3)])
qed

theorem sliding_rays_witness:
  "kind (objs rook_world 0) \<in> {Rook, Bishop, Queen}
   \<and> cell (objs rook_world 0) = Some (0, 0)
   \<and> list_all2 (ray_blocked (chess_board no_check) rook_world 0 0 0)
        (directions_of (kind (objs rook_world 0)))
        [(0, False), (1, False), (0, False), (1, True)]
   \<and> get_reachable_cells (chess_board no_check) rook_world 0 =
        Some (Inr [(1, 0), (0, 1), (0, 2)])"
proof -
  have k: "kind (objs rook_world 0) = Rook" by (simp add: rook_world_def)
  have k': "kind (objs rook_world 0) \<in> {Rook, Bishop, Queen}" by (simp add: k)
  have c: "cell (objs rook_world 0) = Some (0, 0)" by (simp add: rook_world_def)
  have b: "list_all2 (ray_blocked (chess_board no_check) rook_world 0 0 0)
        (directions_of (kind (objs rook_world 0)))
        [(0, False), (1, False), (0, False), (1, True)]"
    unfolding k by (rule rook_world_blocked)
  from sliding_rays [OF k' c b]
  have "get_reachable_cells (chess_board no_check) rook_world 0 =
        Some (Inr [(1, 0), (0, 1), (0, 2)])"
    by (simp add: k directions_of_def rook_directions_def ray_included_def ray_cell_def)
  with k' c b show ?thesis by blast
qed

text \<open>
  Claim C9. For a queen, a rook and a bishop of one colour with the same current cell, on a
  board whose capture query looks at the colour of the piece only, the queen's generation
  gives the rook's list followed by the bishop's list. The equation also covers the other
  outcomes: an exception of the rook's part, or else of the bishop's part, is the queen's
  exception, and the queen's generation does not return exactly when one of the two parts
  does not.
\<close>

theorem queen_is_rook_then_bishop:
  assumes "kind (objs w q) = Queen" and "kind (objs w rk) = Rook"
    and "kind (objs w bs) = Bishop"
    and "cell (objs w rk) = cell (objs w q)" and "cell (objs w bs) = cell (objs w q)"
    and "white (objs w rk) = white (objs w q)" and "white (objs w bs) = white (objs w q)"
    and "colour_only ops w"
  shows "get_reachable_cells ops w q =
     concat_results (get_reachable_cells ops w rk) (get_reachable_cells ops w bs)"
proof -
  have rk: "\<forall>c. can_hit_on_cell ops w rk c = can_hit_on_cell ops w q c"
    using assms(6,8) unfolding colour_only_def can_hit_on_cell_def by blast
  have bs: "\<forall>c. can_hit_on_cell ops w bs c = can_hit_on_cell ops w q c"
    using assms(7,8) unfolding colour_only_def can_hit_on_cell_def by blast
  show ?thesis
    using assms(1,2,3)
    by (simp add: get_reachable_cells_def rook_get_reachable_cells_def
        bishop_get_reachable_cells_def queen_get_reachable_cells_def sliding_queen
        sliding_cong_self [OF assms(4) rk] sliding_cong_self [OF assms(5) bs])
qed

theorem queen_is_rook_then_bishop_witness:
  "kind (objs sliders_world 0) = Queen \<and> kind (objs sliders_world 1) = Rook
   \<and> kind (objs sliders_world 2) = Bishop
   \<and> cell (objs sliders_world 1) = cell (objs sliders_world 0)
   \<and> cell (objs sliders_world 2) = cell (objs sliders_world 0)
   \<and> white (objs sliders_world 1) = white (objs sliders_world 0)
   \<and> white (objs sliders_world 2) = white (objs sliders_world 0)
   \<and> colour_only (chess_board no_check) sliders_world
   \<and> get_reachable_cells (chess_board no_check) sliders_world 0 =
       concat_results (get_reachable_cells (chess_board no_check) sliders_world 1)
         (get_reachable_cells (chess_board no_check) sliders_world 2)"
proof -
  have k: "kind (objs sliders_world 0) = Queen" "kind (objs sliders_world 1) = Rook"
    "kind (objs sliders_world 2) = Bishop"
    by (simp_all add: sliders_world_def)
  have c: "cell (objs sliders_world 1) = cell (objs sliders_world 0)"
    "cell (objs sliders_world 2) = cell (objs sliders_world 0)"
    by (simp_all add: sliders_world_def)
  have wh: "white (objs sliders_world 1) = white (objs sliders_world 0)"
    "white (objs sliders_world 2) = white (objs sliders_world 0)"
    by (simp_all add: sliders_world_def)
  note co = chess_board_colour_only [of no_check sliders_world]
  from queen_is_rook_then_bishop [OF k c wh co] k c wh co show ?thesis by blast
qed

section \<open>Evaluation\<close>

lemma base_values_cls_name: "base_values (cls_name k) = Some (base_material k)"
  by (cases k) (simp_all add: base_values_def cls_name_def base_material_def)

lemma hit_count_loop_ok:
  "\<forall>c\<in>set cs. \<exists>b. can_hit_on_cell ops w self c = Inr b \<Longrightarrow>
   hit_count_loop ops w self cs n =
     Inr (n + length (filter (\<lambda>c. can_hit_on_cell ops w self c = Inr True) cs))"
  by (induction cs arbitrary: n) auto

lemma hit_count_loop_fails:
  "\<exists>c\<in>set cs. \<exists>e. can_hit_on_cell ops w self c = Inl e \<Longrightarrow>
   \<exists>e. hit_count_loop ops w self cs n = Inl e"
  by (induction cs arbitrary: n) (auto split: sum.splits)

lemma evaluate_reachable_failed:
  assumes "get_reachable_cells ops w self = Some (Inl e)"
  shows "evaluate ops w self = Some (Inr (base_material (kind (objs w self))))"
  using assms by (simp add: evaluate_def base_values_cls_name)

lemma evaluate_hits_failed:
  assumes "get_reachable_cells ops w self = Some (Inr cs)"
    and "\<exists>c\<in>set cs. \<exists>e. can_hit_on_cell ops w self c = Inl e"
  shows "evaluate ops w self =
     Some (Inr (base_material (kind (objs w self)) + 0.05 * real (length cs)))"
proof -
  from hit_count_loop_fails [OF assms(2), of 0] obtain e where
    "hit_count_loop ops w self cs 0 = Inl e" by blast
  with assms(1) show ?thesis
    by (simp add: evaluate_def base_values_cls_name)
qed

lemma evaluate_returns:
  assumes "get_reachable_cells ops w self \<noteq> None"
  shows "\<exists>v. evaluate ops w self = Some (Inr v)"
  using assms by (auto simp: evaluate_def Let_def)

lemma pawn_world_hits:
  "\<forall>c\<in>set [(2, 0), (3, 0), (2, 1)]. \<exists>b. can_hit_on_cell (chess_board no_check) pawn_world 0 c = Inr b"
  by (simp add: can_hit_on_cell_def chess_board_def)

lemma knight_world_reachable:
  "get_reachable_cells failing_capture_board knight_world 0 =
     Some (Inr [(5, 4), (5, 2), (1, 4), (1, 2), (4, 5), (4, 1), (2, 5), (2, 1)])"
  by (simp add: get_reachable_cells_def knight_get_reachable_cells_def
      stepping_get_reachable_cells_def jumps_def enter_or_hit_def can_enter_cell_def
      failing_capture_board_def chess_board_def is_valid_cell_def friend_on_def
      knight_world_def)

text \<open>
  Claim C6. When the generation returns the list \<open>cs\<close> and every capture query on a cell of
  \<open>cs\<close> returns, \<open>evaluate\<close> returns the material value of the piece's class plus 0.05 for
  each cell of \<open>cs\<close> plus 0.10 for each cell of \<open>cs\<close> on which the capture query answers true.
  The list \<open>cs\<close> is the result of \<open>get_reachable_cells\<close>, not of \<open>get_valid_cells\<close>.
\<close>

theorem evaluate_formula:
  assumes "get_reachable_cells ops w self = Some (Inr cs)"
    and "\<forall>c\<in>set cs. \<exists>b. can_hit_on_cell ops w self c = Inr b"
  shows "evaluate ops w self =
     Some (Inr (base_material (kind (objs w self)) + 0.05 * real (length cs)
        + 0.10 * real (length (filter (\<lambda>c. can_hit_on_cell ops w self c = Inr True) cs))))"
  using assms(1) hit_count_loop_ok [OF assms(2), of 0]
  by (simp add: evaluate_def base_values_cls_name)

theorem evaluate_formula_witness:
  "get_reachable_cells (chess_board no_check) pawn_world 0 = Some (Inr [(2, 0), (3, 0), (2, 1)])
   \<and> can_hit_on_cell (chess_board no_check) pawn_world 0 (2, 0) = Inr False
   \<and> can_hit_on_cell (chess_board no_check) pawn_world 0 (3, 0) = Inr False
   \<and> can_hit_on_cell (chess_board no_check) pawn_world 0 (2, 1) = Inr True
   \<and> evaluate (chess_board no_check) pawn_world 0 = Some (Inr 1.25)"
  using evaluate_formula [OF pawn_world_reachable pawn_world_hits] pawn_world_reachable
  by (simp add: pawn_world_def can_hit_on_cell_def chess_board_def is_valid_cell_def
      enemy_on_def base_material_def)

text \<open>
  Claim C7. On a bounded board \<open>evaluate\<close> returns a number and raises nothing, for every
  piece. When the generation raised (an unplaced piece, a failing board query), the number
  is the material value alone; when the generation returned \<open>cs\<close> and a capture query of the
  counting loop raised, the number is the material value plus 0.05 for each cell of \<open>cs\<close>.
  The bound is what makes the rays of a sliding piece end.
\<close>

theorem evaluate_never_fails:
  assumes "bounded_board ops w n"
  shows "\<exists>v. evaluate ops w self = Some (Inr v)
     \<and> ((\<exists>e. get_reachable_cells ops w self = Some (Inl e)) \<longrightarrow>
          v = base_material (kind (objs w self)))
     \<and> (\<forall>cs. get_reachable_cells ops w self = Some (Inr cs)
               \<and> (\<exists>c\<in>set cs. \<exists>e. can_hit_on_cell ops w self c = Inl e) \<longrightarrow>
          v = base_material (kind (objs w self)) + 0.05 * real (length cs))"
proof -
  from evaluate_returns [OF get_reachable_cells_terminates [OF assms]]
  obtain v where v: "evaluate ops w self = Some (Inr v)" by blast
  have 1: "(\<exists>e. get_reachable_cells ops w self = Some (Inl e)) \<longrightarrow>
      v = base_material (kind (objs w self))"
    using v evaluate_reachable_failed [of ops w self] by auto
  have 2: "\<forall>cs. get_reachable_cells ops w self = Some (Inr cs)
               \<and> (\<exists>c\<in>set cs. \<exists>e. can_hit_on_cell ops w self c = Inl e) \<longrightarrow>
          v = base_material (kind (objs w self)) + 0.05 * real (length cs)"
  proof (intro allI impI)
    fix cs
    assume "get_reachable_cells ops w self = Some (Inr cs)
        \<and> (\<exists>c\<in>set cs. \<exists>e. can_hit_on_cell ops w self c = Inl e)"
    then have "evaluate ops w self =
        Some (Inr (base_material (kind (objs w self)) + 0.05 * real (length cs)))"
      by (intro evaluate_hits_failed) blast+
    with v show "v = base_material (kind (objs w self)) + 0.05 * real (length cs)"
      by simp
  qed
  from v 1 2 show ?thesis by blast
qed

theorem evaluate_never_fails_witness:
  "bounded_board (chess_board no_check) unplaced_world 8
   \<and> get_reachable_cells (chess_board no_check) unplaced_world 0 = Some (Inl TypeError)
   \<and> evaluate (chess_board no_check) unplaced_world 0 = Some (Inr 5)
   \<and> bounded_board failing_capture_board knight_world 8
   \<and> get_reachable_cells failing_capture_board knight_world 0 =
       Some (Inr [(5, 4), (5, 2), (1, 4), (1, 2), (4, 5), (4, 1), (2, 5), (2, 1)])
   \<and> can_hit_on_cell failing_capture_board knight_world 0 (5, 4) = Inl BoardQueryFailure
   \<and> evaluate failing_capture_board knight_world 0 = Some (Inr 3.4)"
proof -
  have a: "get_reachable_cells (chess_board no_check) unplaced_world 0 = Some (Inl TypeError)"
    by (simp add: get_reachable_cells_def rook_get_reachable_cells_def
        sliding_get_reachable_cells_def unplaced_world_def)
  have b: "can_hit_on_cell failing_capture_board knight_world 0 (5, 4) = Inl BoardQueryFailure"
    by (simp add: can_hit_on_cell_def failing_capture_board_def)
  from evaluate_never_fails [OF chess_board_bounded, of no_check unplaced_world 0] a
  have 1: "evaluate (chess_board no_check) unplaced_world 0 = Some (Inr 5)"
    by (auto simp: base_material_def unplaced_world_def)
  from evaluate_never_fails [OF failing_capture_board_bounded, of knight_world 0]
    knight_world_reachable b
  have 2: "evaluate failing_capture_board knight_world 0 = Some (Inr 3.4)"
    by (auto simp: base_material_def knight_world_def)
  from a b 1 2 knight_world_reachable chess_board_bounded failing_capture_board_bounded
  show ?thesis by blast
qed

section \<open>Unplaced pieces\<close>

lemma unplaced_raises:
  "cell (objs w self) = None \<Longrightarrow> get_reachable_cells ops w self = Some (Inl TypeError)"
  by (simp add: get_reachable_cells_def pawn_get_reachable_cells_def
      knight_get_reachable_cells_def king_get_reachable_cells_def
      stepping_get_reachable_cells_def rook_get_reachable_cells_def
      bishop_get_reachable_cells_def queen_get_reachable_cells_def
      sliding_get_reachable_cells_def split: kind.splits)

text \<open>
  Claim C8. A piece whose current cell is \<open>None\<close> makes reachable-cell generation fail,
  for each of the six classes, whatever the board is and before any query to it: the first
  statement \<^verbatim>\<open>r, c = self.cell\<close> raises \<open>TypeError\<close>. So the generation neither goes on
  with undefined coordinates nor returns a list, empty or not. The error is the one of the
  unpacking: the source has no test for an unplaced piece and no error of its own for it.
\<close>

theorem unplaced_piece_fails:
  "cell (objs w self) = None \<Longrightarrow> get_reachable_cells ops w self = Some (Inl TypeError)"
  by (simp add: get_reachable_cells_def pawn_get_reachable_cells_def
      knight_get_reachable_cells_def king_get_reachable_cells_def
      stepping_get_reachable_cells_def rook_get_reachable_cells_def
      bishop_get_reachable_cells_def queen_get_reachable_cells_def
      sliding_get_reachable_cells_def split: kind.splits)

theorem unplaced_piece_fails_witness:
  "cell (objs unplaced_world 0) = None
   \<and> get_reachable_cells (chess_board no_check) unplaced_world 0 = Some (Inl TypeError)"
  using unplaced_piece_fails [of unplaced_world 0 "chess_board no_check"]
  by (simp add: unplaced_world_def)

text \<open>
  The unplaced rook of the example: the generation raises \<open>TypeError\<close>, which is not the
  dedicated error of the spec.
\<close>

theorem unplaced_piece_counterexample:
  "cell (objs unplaced_world 0) = None
   \<and> get_reachable_cells (chess_board no_check) unplaced_world 0 = Some (Inl TypeError)
   \<and> get_reachable_cells (chess_board no_check) unplaced_world 0 \<noteq> Some (Inl UnplacedPiece)"
  by (simp add: get_reachable_cells_def rook_get_reachable_cells_def
      sliding_get_reachable_cells_def unplaced_world_def)

section \<open>Legality filter\<close>

subsection \<open>One candidate: simulate, query, restore\<close>

lemma is_white_set_cell: "is_white (set_cell w c occ) p = is_white w p"
  by (simp add: is_white_def set_cell_def split: option.splits)

lemma attribute_on_target: "cell (objs (set_cell w t (Some self)) self) = Some t"
  by (simp add: set_cell_def)

lemma cells_on_target: "cells (set_cell w t (Some self)) t = Some self"
  by (simp add: set_cell_def)

lemma cells_simulate_restore:
  assumes "cells w oc = Some self"
  shows "cells (simulate_restore w self oc target) = cells w"
proof (rule ext)
  fix c
  show "cells (simulate_restore w self oc target) c = cells w c"
    using assms
    by (cases "cells w target")
      (auto simp: simulate_restore_def set_cell_def get_cell_def)
qed

lemma objs_simulate_restore:
  assumes "cell (objs w self) = Some oc" and "cells w oc = Some self" and "consistent w"
  shows "objs (simulate_restore w self oc target) = objs w"
proof (rule ext)
  fix p
  have own: "(objs w self)\<lparr>cell := Some oc\<rparr> = objs w self"
    using assms(1) by (cases "objs w self") simp
  show "objs (simulate_restore w self oc target) p = objs w p"
  proof (cases "cells w target")
    case None
    then show ?thesis
      using own by (simp add: simulate_restore_def set_cell_def get_cell_def)
  next
    case (Some q)
    with assms(3) have q: "cell (objs w q) = Some target"
      unfolding consistent_def by blast
    have qown: "(objs w q)\<lparr>cell := Some target\<rparr> = objs w q"
      using q by (cases "objs w q") simp
    show ?thesis
    proof (cases "q = self")
      case True
      with q assms(1) have "target = oc" by simp
      with True Some own show ?thesis
        by (simp add: simulate_restore_def set_cell_def get_cell_def)
    next
      case False
      with Some own qown show ?thesis
        by (simp add: simulate_restore_def set_cell_def get_cell_def)
    qed
  qed
qed

lemma simulate_restore_id:
  assumes "cell (objs w self) = Some oc" and "cells w oc = Some self" and "consistent w"
  shows "simulate_restore w self oc target = w"
  using cells_simulate_restore [OF assms(2), of target] objs_simulate_restore [OF assms, of target]
  by (intro world.equality) simp_all

lemma simulate_restore_attribute:
  assumes "cell (objs w self) = Some oc" and "only_on_own_cell w self"
  shows "cell (objs (simulate_restore w self oc target) self) = Some oc"
    and "only_on_own_cell (simulate_restore w self oc target) self"
proof -
  have own: "\<And>c. cells w c = Some self \<Longrightarrow> c = oc"
    using assms unfolding only_on_own_cell_def by auto
  show "cell (objs (simulate_restore w self oc target) self) = Some oc"
    using own [of target]
    by (cases "cells w target")
      (auto simp: simulate_restore_def set_cell_def get_cell_def)
  then show "only_on_own_cell (simulate_restore w self oc target) self"
    unfolding only_on_own_cell_def
    using own
    by (cases "cells w target")
      (auto simp: simulate_restore_def set_cell_def get_cell_def split: if_splits)
qed

lemma filter_loop_step:
  "filter_loop ops self (Some oc) (target # ts) w valid =
     (case in_check_after ops w self target of
        Inl e \<Rightarrow> (Inl e, set_cell w target (Some self))
      | Inr in_check \<Rightarrow>
          filter_loop ops self (Some oc) ts (simulate_restore w self oc target)
            (if \<not> in_check then valid @ [target] else valid))"
  by (simp add: in_check_after_def simulate_restore_def is_white_set_cell Let_def
      split: sum.splits)

subsection \<open>The loop over the candidates\<close>

lemma filter_loop_cells:
  assumes "cells w oc = Some self"
    and "filter_loop ops self (Some oc) ts w valid = (Inr valid', w')"
  shows "cells w' = cells w"
  using assms
proof (induction ts arbitrary: w valid)
  case Nil
  then show ?case by simp
next
  case (Cons target ts)
  from Cons.prems(2) obtain b where
    b: "in_check_after ops w self target = Inr b" and
    rest: "filter_loop ops self (Some oc) ts (simulate_restore w self oc target)
        (if \<not> b then valid @ [target] else valid) = (Inr valid', w')"
    unfolding filter_loop_step by (auto split: sum.splits)
  note same = cells_simulate_restore [OF Cons.prems(1), of target]
  have "cells (simulate_restore w self oc target) oc = Some self"
    by (simp add: same Cons.prems(1))
  from Cons.IH [OF this rest] show ?case by (simp add: same)
qed

lemma filter_loop_attribute:
  assumes "cell (objs w self) = Some oc" and "only_on_own_cell w self"
    and "filter_loop ops self (Some oc) ts w valid = (Inr valid', w')"
  shows "cell (objs w' self) = Some oc"
  using assms
proof (induction ts arbitrary: w valid)
  case Nil
  then show ?case by simp
next
  case (Cons target ts)
  from Cons.prems(3) obtain b where
    rest: "filter_loop ops self (Some oc) ts (simulate_restore w self oc target)
        (if \<not> b then valid @ [target] else valid) = (Inr valid', w')"
    unfolding filter_loop_step by (auto split: sum.splits)
  from Cons.IH [OF simulate_restore_attribute [OF Cons.prems(1,2)] rest]
  show ?case .
qed

lemma filter_loop_append:
  "filter_loop ops self (Some oc) (pre @ rest) w valid =
     (case filter_loop ops self (Some oc) pre w valid of
        (Inl e, w1) \<Rightarrow> (Inl e, w1)
      | (Inr v, w1) \<Rightarrow> filter_loop ops self (Some oc) rest w1 v)"
proof (induction pre arbitrary: w valid)
  case Nil
  then show ?case by simp
next
  case (Cons a pre)
  show ?case
    unfolding append_Cons filter_loop_step
    by (simp add: Cons.IH split: sum.splits)
qed

lemma filter_loop_before:
  assumes "filter_loop ops self (Some oc) pre w valid = (Inr v, w1)"
  shows "w1 = board_before w self oc pre"
  using assms
proof (induction pre arbitrary: w valid)
  case Nil
  then show ?case by simp
next
  case (Cons a pre)
  from Cons.prems obtain b where
    rest: "filter_loop ops self (Some oc) pre (simulate_restore w self oc a)
        (if \<not> b then valid @ [a] else valid) = (Inr v, w1)"
    unfolding filter_loop_step by (auto split: sum.splits)
  from Cons.IH [OF rest] show ?case by simp
qed

lemma board_before_same:
  assumes "cell (objs w self) = Some oc" and "cells w oc = Some self" and "consistent w"
  shows "board_before w self oc pre = w"
  by (induction pre) (simp_all add: simulate_restore_id [OF assms])



subsection \<open>The filter on a position where board and pieces agree\<close>

lemma filter_loop_fixed:
  assumes "cell (objs w self) = Some oc" and "cells w oc = Some self" and "consistent w"
  shows "filter_loop ops self (Some oc) ts w valid = filter_fixed ops w self ts valid"
proof (induction ts arbitrary: valid)
  case Nil
  then show ?case by simp
next
  case (Cons target ts)
  show ?case
    unfolding filter_loop_step simulate_restore_id [OF assms]
    by (simp add: Cons.IH split: sum.splits)
qed

lemma filter_fixed_normal:
  assumes "filter_fixed ops w self ts valid = (Inr valid', w')"
  shows "w' = w \<and> valid' = valid @ filter (\<lambda>t. in_check_after ops w self t = Inr False) ts"
  using assms
proof (induction ts arbitrary: valid)
  case Nil
  then show ?case by simp
next
  case (Cons target ts)
  from Cons.prems obtain b where
    b: "in_check_after ops w self target = Inr b" and
    rest: "filter_fixed ops w self ts (if \<not> b then valid @ [target] else valid) = (Inr valid', w')"
    by (auto split: sum.splits)
  from Cons.IH [OF rest] b show ?case by (cases b) simp_all
qed

lemma get_valid_cells_reachable:
  assumes "get_valid_cells ops w self = Some (res, w')"
  shows "(\<exists>e. get_reachable_cells ops w self = Some (Inl e) \<and> res = Inl e \<and> w' = w)
     \<or> (\<exists>reachable. get_reachable_cells ops w self = Some (Inr reachable)
          \<and> filter_loop ops self (cell (objs w self)) reachable w [] = (res, w'))"
  using assms by (auto simp: get_valid_cells_def split: option.splits sum.splits)

lemma get_valid_cells_returns:
  assumes "bounded_board ops w n"
  shows "\<exists>res w'. get_valid_cells ops w self = Some (res, w')"
proof (cases "get_reachable_cells ops w self")
  case None
  with get_reachable_cells_terminates [OF assms, of self] show ?thesis by simp
next
  case (Some r)
  then show ?thesis
    by (cases r) (simp_all add: get_valid_cells_def prod_eq_iff)
qed

lemma on_board_cell:
  assumes "on_board w self"
  obtains oc where "cell (objs w self) = Some oc" and "cells w oc = Some self"
  using assms by (auto simp: on_board_def split: option.splits)

subsection \<open>The example positions\<close>

lemma pawn_world_placed:
  "cell (objs pawn_world 0) = Some (1, 0)"
  "cells pawn_world (1, 0) = Some 0"
  "on_board pawn_world 0"
  "consistent pawn_world"
  "only_on_own_cell pawn_world 0"
  by (auto simp: pawn_world_def on_board_def consistent_def only_on_own_cell_def
      split: if_splits)

lemma pawn_world_valid:
  "get_valid_cells (chess_board chk) pawn_world 0 =
     Some (filter_fixed (chess_board chk) pawn_world 0 [(2, 0), (3, 0), (2, 1)] [])"
  by (simp add: get_valid_cells_def pawn_world_reachable pawn_world_placed(1)
      filter_loop_fixed [OF pawn_world_placed(1,2,4)] del: filter_loop.simps)

lemma in_check_after_chess_board:
  "in_check_after (chess_board chk) w self t = chk (set_cell w t (Some self)) (is_white w self)"
  by (simp add: in_check_after_def chess_board_def)

lemma pawn_world_no_check:
  "get_valid_cells (chess_board no_check) pawn_world 0 =
     Some (Inr [(2, 0), (3, 0), (2, 1)], pawn_world)"
  by (simp add: pawn_world_valid in_check_after_chess_board no_check_def)

lemma pawn_world_check_3_0:
  "in_check_after (chess_board check_when_3_0_taken) pawn_world 0 (2, 0) = Inr False"
  "in_check_after (chess_board check_when_3_0_taken) pawn_world 0 (3, 0) = Inr True"
  "in_check_after (chess_board check_when_3_0_taken) pawn_world 0 (2, 1) = Inr False"
  by (simp_all add: in_check_after_chess_board check_when_3_0_taken_def set_cell_def
      pawn_world_def)

lemma pawn_world_valid_3_0:
  "get_valid_cells (chess_board check_when_3_0_taken) pawn_world 0 =
     Some (Inr [(2, 0), (2, 1)], pawn_world)"
  by (simp add: pawn_world_valid pawn_world_check_3_0)

lemma pawn_world_fails_on_3_0:
  "filter_loop (chess_board check_fails_on_3_0) 0 (Some (1, 0)) [(2, 0)] pawn_world [] =
     (Inr [(2, 0)], pawn_world)"
  "in_check_after (chess_board check_fails_on_3_0) pawn_world 0 (3, 0) = Inl BoardQueryFailure"
proof -
  have a: "in_check_after (chess_board check_fails_on_3_0) pawn_world 0 (2, 0) = Inr False"
    by (simp add: in_check_after_chess_board check_fails_on_3_0_def set_cell_def
        pawn_world_def)
  show "filter_loop (chess_board check_fails_on_3_0) 0 (Some (1, 0)) [(2, 0)] pawn_world [] =
     (Inr [(2, 0)], pawn_world)"
    unfolding filter_loop_fixed [OF pawn_world_placed(1,2,4)] by (simp add: a)
  show "in_check_after (chess_board check_fails_on_3_0) pawn_world 0 (3, 0) =
      Inl BoardQueryFailure"
    by (simp add: in_check_after_chess_board check_fails_on_3_0_def set_cell_def
        pawn_world_def)
qed

lemma captured_world_reachable:
  "get_reachable_cells (chess_board chk) captured_world 0 = Some (Inr [(2, 0), (3, 0)])"
  by (simp add: get_reachable_cells_def pawn_get_reachable_cells_def pawn_forward_def
      append_if_hit_def can_hit_on_cell_def is_white_def direction_def start_row_def
      chess_board_def is_valid_cell_def enemy_on_def captured_world_def)

subsection \<open>The board after the call\<close>

text \<open>
  Claim C1. For a piece that the board holds on the piece's current cell: when
  \<open>get_valid_cells\<close> completes normally, the cells of the board after the call are the cells
  before the call, whatever the number of candidates. When moreover every piece on the
  board carries the cell it stands on, the whole state, the current cells of the pieces
  included, is the state before the call. The piece has to be on the board there: the
  restoring \<^verbatim>\<open>set_cell(old_cell, self)\<close> writes the mover to the cell it carries, whatever
  the board held on that cell.
\<close>

theorem board_restored:
  assumes "on_board w self" and "get_valid_cells ops w self = Some (Inr valid, w')"
  shows "cells w' = cells w \<and> (consistent w \<longrightarrow> w' = w)"
proof -
  from on_board_cell [OF assms(1)] obtain oc where
    oc: "cell (objs w self) = Some oc" "cells w oc = Some self" by blast
  from get_valid_cells_reachable [OF assms(2)] oc(1) obtain reachable where
    loop: "filter_loop ops self (Some oc) reachable w [] = (Inr valid, w')"
    by auto
  have 1: "cells w' = cells w"
    by (rule filter_loop_cells [OF oc(2) loop])
  have 2: "consistent w \<longrightarrow> w' = w"
  proof
    assume "consistent w"
    from loop [unfolded filter_loop_fixed [OF oc this]] filter_fixed_normal
    show "w' = w" by blast
  qed
  from 1 2 show ?thesis by blast
qed

theorem board_restored_witness:
  "on_board pawn_world 0 \<and> consistent pawn_world
   \<and> get_valid_cells (chess_board check_when_3_0_taken) pawn_world 0 =
       Some (Inr [(2, 0), (2, 1)], pawn_world)"
  using board_restored [OF pawn_world_placed(3) pawn_world_valid_3_0] pawn_world_placed(3,4)
    pawn_world_valid_3_0
  by simp

text \<open>
  A captured pawn still carries the cell (1, 0), where the rook that captured it stands.
  The call for the pawn returns two cells and leaves the pawn on (1, 0) in place of the
  rook.
\<close>

theorem board_restored_counterexample:
  "cell (objs captured_world 0) = Some (1, 0)
   \<and> cells captured_world (1, 0) = Some 1
   \<and> consistent captured_world
   \<and> fst (the (get_valid_cells (chess_board no_check) captured_world 0)) = Inr [(2, 0), (3, 0)]
   \<and> cells (snd (the (get_valid_cells (chess_board no_check) captured_world 0))) (1, 0) = Some 0"
proof -
  have c: "consistent captured_world"
    by (auto simp: consistent_def captured_world_def split: if_splits)
  have o: "cell (objs captured_world 0) = Some (1, 0)" "cells captured_world (1, 0) = Some 1"
    by (simp_all add: captured_world_def)
  have v: "get_valid_cells (chess_board no_check) captured_world 0 =
      Some (filter_loop (chess_board no_check) 0 (Some (1, 0)) [(2, 0), (3, 0)] captured_world [])"
    by (simp add: get_valid_cells_def captured_world_reachable o del: filter_loop.simps)
  have l: "filter_loop (chess_board no_check) 0 (Some (1, 0)) [(2, 0), (3, 0)] captured_world [] =
      (Inr [(2, 0), (3, 0)],
       simulate_restore (simulate_restore captured_world 0 (1, 0) (2, 0)) 0 (1, 0) (3, 0))"
    unfolding filter_loop_step by (simp add: in_check_after_chess_board no_check_def)
  have s: "cells (simulate_restore (simulate_restore captured_world 0 (1, 0) (2, 0)) 0 (1, 0) (3, 0))
      (1, 0) = Some 0"
    by (simp add: simulate_restore_def set_cell_def get_cell_def captured_world_def)
  from c o s show ?thesis unfolding v l by simp
qed

subsection \<open>The cells that are kept\<close>



subsection \<open>A check predicate that raises\<close>

text \<open>
  Claim C3. When the check predicate raises while the candidate \<open>t\<close> is simulated, the
  candidates before \<open>t\<close> having been filtered normally, \<open>get_valid_cells\<close> raises the same
  exception: it is not masked. The board is left as it was when the predicate raised, the
  mover on the cell \<open>t\<close> and carrying \<open>t\<close> as its current cell: \<^verbatim>\<open>get_valid_cells\<close> has
  no handler and no cleanup, so the two restoring calls are skipped. The candidates before
  \<open>t\<close> have been restored: on a position where board and pieces agree, what is left is the
  board of the call with the mover put on \<open>t\<close>.
\<close>

theorem check_failure_propagates:
  assumes "cell (objs w self) = Some oc"
    and "get_reachable_cells ops w self = Some (Inr (pre @ t # post))"
    and "filter_loop ops self (Some oc) pre w [] = (Inr valid, w1)"
    and "in_check_after ops w1 self t = Inl e"
  shows "get_valid_cells ops w self = Some (Inl e, set_cell w1 t (Some self))
     \<and> cells (set_cell w1 t (Some self)) t = Some self
     \<and> cell (objs (set_cell w1 t (Some self)) self) = Some t
     \<and> (on_board w self \<and> consistent w \<longrightarrow> w1 = w)"
proof -
  have "filter_loop ops self (Some oc) (t # post) w1 valid = (Inl e, set_cell w1 t (Some self))"
    unfolding filter_loop_step by (simp add: assms(4))
  then have "filter_loop ops self (Some oc) (pre @ t # post) w [] =
      (Inl e, set_cell w1 t (Some self))"
    unfolding filter_loop_append assms(3) by simp
  then have 1: "get_valid_cells ops w self = Some (Inl e, set_cell w1 t (Some self))"
    by (simp add: get_valid_cells_def assms(1,2))
  have 2: "on_board w self \<and> consistent w \<longrightarrow> w1 = w"
  proof
    assume wf: "on_board w self \<and> consistent w"
    with assms(1) have on: "cells w oc = Some self"
      by (simp add: on_board_def)
    from wf have co: "consistent w" by simp
    from filter_loop_before [OF assms(3)] board_before_same [OF assms(1) on co]
    show "w1 = w" by simp
  qed
  from 1 2 show ?thesis by (simp add: attribute_on_target cells_on_target)
qed

theorem check_failure_propagates_witness:
  "cell (objs pawn_world 0) = Some (1, 0)
   \<and> on_board pawn_world 0 \<and> consistent pawn_world
   \<and> get_reachable_cells (chess_board check_fails_on_3_0) pawn_world 0 =
       Some (Inr ([(2, 0)] @ (3, 0) # [(2, 1)]))
   \<and> filter_loop (chess_board check_fails_on_3_0) 0 (Some (1, 0)) [(2, 0)] pawn_world [] =
       (Inr [(2, 0)], pawn_world)
   \<and> in_check_after (chess_board check_fails_on_3_0) pawn_world 0 (3, 0) = Inl BoardQueryFailure
   \<and> get_valid_cells (chess_board check_fails_on_3_0) pawn_world 0 =
       Some (Inl BoardQueryFailure, set_cell pawn_world (3, 0) (Some 0))"
proof -
  have r: "get_reachable_cells (chess_board check_fails_on_3_0) pawn_world 0 =
       Some (Inr ([(2, 0)] @ (3, 0) # [(2, 1)]))"
    by (simp add: pawn_world_reachable)
  from check_failure_propagates [OF pawn_world_placed(1) r pawn_world_fails_on_3_0]
    pawn_world_placed(1,3,4) r pawn_world_fails_on_3_0
  show ?thesis by blast
qed

text \<open>
  With a check predicate that always raises, the call for the pawn on (1, 0) raises at the
  first candidate and leaves the pawn on (2, 0), a cell that was empty before the call.
\<close>

theorem check_failure_counterexample:
  "get_valid_cells (chess_board failing_check) pawn_world 0 =
     Some (Inl BoardQueryFailure, set_cell pawn_world (2, 0) (Some 0))
   \<and> cells pawn_world (2, 0) = None
   \<and> cells (set_cell pawn_world (2, 0) (Some 0)) (2, 0) = Some 0
   \<and> cell (objs pawn_world 0) = Some (1, 0)
   \<and> cell (objs (set_cell pawn_world (2, 0) (Some 0)) 0) = Some (2, 0)"
proof -
  have "get_valid_cells (chess_board failing_check) pawn_world 0 =
     Some (Inl BoardQueryFailure, set_cell pawn_world (2, 0) (Some 0))"
    by (simp add: pawn_world_valid in_check_after_chess_board failing_check_def)
  moreover have "cells pawn_world (2, 0) = None" "cell (objs pawn_world 0) = Some (1, 0)"
    by (simp_all add: pawn_world_def)
  ultimately show ?thesis by (simp add: set_cell_def)
qed

subsection \<open>The current cell of the mover\<close>

text \<open>
  Claim C10. \<^verbatim>\<open>get_valid_cells\<close> itself assigns nothing to the piece; what changes the
  current cell of the piece is \<open>set_cell\<close> of the board, which reassigns the cell of the
  piece it stores. So on the board where a candidate \<open>t\<close> is simulated the piece carries
  \<open>t\<close>, and when the call completes normally, on a board that holds the piece on no cell
  other than its own, the piece carries the cell it had before the call.
\<close>

theorem cell_attribute_restored:
  assumes "only_on_own_cell w self"
    and "get_valid_cells ops w self = Some (Inr valid, w')"
  shows "cell (objs w' self) = cell (objs w self)
     \<and> (\<forall>t. cell (objs (set_cell w t (Some self)) self) = Some t)"
proof -
  from get_valid_cells_reachable [OF assms(2)] obtain reachable where
    r: "get_reachable_cells ops w self = Some (Inr reachable)" and
    loop: "filter_loop ops self (cell (objs w self)) reachable w [] = (Inr valid, w')"
    by auto
  from r unplaced_raises [of w self ops] obtain oc where oc: "cell (objs w self) = Some oc"
    by (cases "cell (objs w self)") auto
  from filter_loop_attribute [OF oc assms(1) loop [unfolded oc]]
  have "cell (objs w' self) = cell (objs w self)" by (simp add: oc)
  then show ?thesis by (simp add: attribute_on_target)
qed

theorem cell_attribute_restored_witness:
  "only_on_own_cell pawn_world 0
   \<and> get_valid_cells (chess_board no_check) pawn_world 0 =
       Some (Inr [(2, 0), (3, 0), (2, 1)], pawn_world)
   \<and> cell (objs pawn_world 0) = Some (1, 0)
   \<and> cell (objs (set_cell pawn_world (3, 0) (Some 0)) 0) = Some (3, 0)"
  using cell_attribute_restored [OF pawn_world_placed(5) pawn_world_no_check]
    pawn_world_placed(1,5) pawn_world_no_check
  by simp

text \<open>
  A check predicate that reads the current cell of the pawn sees it moved at every
  candidate: with it the call keeps no cell, where a predicate that never reports check
  keeps all three.
\<close>

theorem cell_attribute_counterexample:
  "cell (objs pawn_world 0) = Some (1, 0)
   \<and> cell (objs (set_cell pawn_world (2, 0) (Some 0)) 0) = Some (2, 0)
   \<and> get_valid_cells (chess_board no_check) pawn_world 0 =
       Some (Inr [(2, 0), (3, 0), (2, 1)], pawn_world)
   \<and> get_valid_cells (chess_board check_when_moved) pawn_world 0 = Some (Inr [], pawn_world)"
proof -
  have "get_valid_cells (chess_board check_when_moved) pawn_world 0 = Some (Inr [], pawn_world)"
    by (simp add: pawn_world_valid in_check_after_chess_board check_when_moved_def set_cell_def)
  with pawn_world_placed(1) pawn_world_no_check show ?thesis
    by (simp add: set_cell_def)
qed

end
